theory Spec2Isabelle
  imports Complex_Main
begin

section \<open>Numbers of the source language\<close>

text \<open>
  The engine of \<^verbatim>\<open>src/error-diffusion.ts\<close> computes on values of the type
  \<^verbatim>\<open>number\<close>: a binary64 floating-point number, plus or minus infinity, or
  \<open>NaN\<close>. A finite number is modelled by the real that it denotes (the two zeros are one
  number here; no operation of the engine tells them apart). \<open>NaN\<close> also stands for
  \<^verbatim>\<open>undefined\<close>, which every operation of the engine turns into \<open>NaN\<close> (the
  subtraction of line 79, the store into the \<^verbatim>\<open>Float64Array\<close> of line 76). The width,
  the height and the indices are integers, which may be negative.
\<close>

datatype jsnum = Num real | PInf | NInf | NaN

subsection \<open>Rounding to binary64\<close>

text \<open>
  An arithmetic operation of the source returns the exact result rounded to the nearest
  binary64 number, a tie going to the number with the even significand. \<open>rne\<close> rounds a
  real to the nearest integer in this way.
\<close>

definition rne :: "real \<Rightarrow> int" where
  "rne r = (let f = \<lfloor>r\<rfloor>; d = r - of_int f
            in if d < 1 / 2 then f else if 1 / 2 < d then f + 1
               else if even f then f else f + 1)"

text \<open>
  The binary exponent of a real \<open>x\<close> other than 0: the integer \<open>e\<close> with
  \<open>2 powi e \<le> \<bar>x\<bar> < 2 powi (e + 1)\<close>.
\<close>

function expo :: "real \<Rightarrow> int" where
  "expo x = (if x = 0 then 0
             else if 2 \<le> \<bar>x\<bar> then expo (x / 2) + 1
             else if \<bar>x\<bar> < 1 then expo (x * 2) - 1
             else 0)"
  by pat_completeness auto
termination
proof (relation "measure (\<lambda>x. nat \<bar>\<lfloor>log 2 \<bar>x\<bar>\<rfloor>\<bar>)")
  show "wf (measure (\<lambda>x. nat \<bar>\<lfloor>log 2 \<bar>x\<bar>\<rfloor>\<bar>))" by simp
next
  fix x :: real
  assume x: "x \<noteq> 0" and big: "2 \<le> \<bar>x\<bar>"
  define L where "L = \<lfloor>log 2 \<bar>x\<bar>\<rfloor>"
  have "log 2 \<bar>x / 2\<bar> = log 2 \<bar>x\<bar> - 1"
    using x by (simp add: log_divide)
  then have half: "\<lfloor>log 2 \<bar>x / 2\<bar>\<rfloor> = L - 1"
    by (simp add: L_def)
  have "1 \<le> log 2 \<bar>x\<bar>"
    using big by (simp add: le_log_iff)
  then have "1 \<le> L"
    by (simp add: L_def le_floor_iff)
  with half show "(x / 2, x) \<in> measure (\<lambda>x. nat \<bar>\<lfloor>log 2 \<bar>x\<bar>\<rfloor>\<bar>)"
    unfolding in_measure L_def [symmetric] by linarith
next
  fix x :: real
  assume x: "x \<noteq> 0" and small: "\<not> 2 \<le> \<bar>x\<bar>" "\<bar>x\<bar> < 1"
  define L where "L = \<lfloor>log 2 \<bar>x\<bar>\<rfloor>"
  have "log 2 \<bar>x * 2\<bar> = log 2 \<bar>x\<bar> + 1"
    using x by (simp add: log_mult abs_mult)
  then have double: "\<lfloor>log 2 \<bar>x * 2\<bar>\<rfloor> = L + 1"
    by (simp add: L_def)
  have "log 2 \<bar>x\<bar> < 0"
    using small x by simp
  then have "L < 0"
    by (simp add: L_def floor_less_iff)
  with double show "(x * 2, x) \<in> measure (\<lambda>x. nat \<bar>\<lfloor>log 2 \<bar>x\<bar>\<rfloor>\<bar>)"
    unfolding in_measure L_def [symmetric] by linarith
qed

declare expo.simps [simp del]

text \<open>
  The binary64 numbers near \<open>x\<close> are the integer multiples of \<open>2 powi quantum x\<close>: a
  significand of 53 bits, and the least exponent \<open>-1074\<close> of the subnormal numbers.
\<close>

definition quantum :: "real \<Rightarrow> int" where
  "quantum x = max (expo x - 52) (- 1074)"

text \<open>
  The rounding of the source's arithmetic. A result that rounds to \<open>2 ^ 1024\<close> or beyond in
  magnitude overflows to an infinity.
\<close>

definition binary64 :: "real \<Rightarrow> jsnum" where
  "binary64 x =
     (let q = quantum x;
          y = of_int (rne (x / 2 powi q)) * 2 powi q
      in if 2 ^ 1024 \<le> \<bar>y\<bar> then (if 0 < x then PInf else NInf) else Num y)"

text \<open>
  The arithmetic of the spec's data model ("working arithmetic during diffusion is
  real-valued"), which does not round.
\<close>

definition exact :: "real \<Rightarrow> jsnum" where
  "exact x = Num x"

subsection \<open>Operations\<close>

text \<open>
  The operations take the rounding \<open>rnd\<close> of the arithmetic as their first argument and
  apply it to the exact result of two finite operands. The source is the instance
  \<open>binary64\<close>. The quotients \<^verbatim>\<open>7 / 16\<close>, \<^verbatim>\<open>3 / 16\<close>, \<^verbatim>\<open>5 / 16\<close> and
  \<^verbatim>\<open>1 / 16\<close> of the source are binary64 numbers, and are written as such.
\<close>

fun js_add :: "(real \<Rightarrow> jsnum) \<Rightarrow> jsnum \<Rightarrow> jsnum \<Rightarrow> jsnum" where
  "js_add rnd (Num a) (Num b) = rnd (a + b)"
| "js_add rnd NaN _ = NaN"
| "js_add rnd _ NaN = NaN"
| "js_add rnd PInf NInf = NaN"
| "js_add rnd NInf PInf = NaN"
| "js_add rnd PInf _ = PInf"
| "js_add rnd _ PInf = PInf"
| "js_add rnd NInf _ = NInf"
| "js_add rnd _ NInf = NInf"

fun js_sub :: "(real \<Rightarrow> jsnum) \<Rightarrow> jsnum \<Rightarrow> jsnum \<Rightarrow> jsnum" where
  "js_sub rnd (Num a) (Num b) = rnd (a - b)"
| "js_sub rnd NaN _ = NaN"
| "js_sub rnd _ NaN = NaN"
| "js_sub rnd PInf PInf = NaN"
| "js_sub rnd NInf NInf = NaN"
| "js_sub rnd PInf _ = PInf"
| "js_sub rnd NInf _ = NInf"
| "js_sub rnd _ PInf = NInf"
| "js_sub rnd _ NInf = PInf"

fun js_mul :: "(real \<Rightarrow> jsnum) \<Rightarrow> jsnum \<Rightarrow> jsnum \<Rightarrow> jsnum" where
  "js_mul rnd (Num a) (Num b) = rnd (a * b)"
| "js_mul rnd NaN _ = NaN"
| "js_mul rnd _ NaN = NaN"
| "js_mul rnd PInf (Num b) = (if b = 0 then NaN else if 0 < b then PInf else NInf)"
| "js_mul rnd NInf (Num b) = (if b = 0 then NaN else if 0 < b then NInf else PInf)"
| "js_mul rnd (Num a) PInf = (if a = 0 then NaN else if 0 < a then PInf else NInf)"
| "js_mul rnd (Num a) NInf = (if a = 0 then NaN else if 0 < a then NInf else PInf)"
| "js_mul rnd PInf PInf = PInf"
| "js_mul rnd PInf NInf = NInf"
| "js_mul rnd NInf PInf = NInf"
| "js_mul rnd NInf NInf = PInf"

text \<open>\<^verbatim>\<open>a < b\<close>: false as soon as one side is \<open>NaN\<close>.\<close>

fun js_lt :: "jsnum \<Rightarrow> jsnum \<Rightarrow> bool" where
  "js_lt (Num a) (Num b) = (a < b)"
| "js_lt NaN _ = False"
| "js_lt _ NaN = False"
| "js_lt PInf _ = False"
| "js_lt _ NInf = False"
| "js_lt NInf _ = True"
| "js_lt _ PInf = True"

fun js_abs :: "jsnum \<Rightarrow> jsnum" where
  "js_abs (Num a) = Num \<bar>a\<bar>"
| "js_abs PInf = PInf"
| "js_abs NInf = PInf"
| "js_abs NaN = NaN"

text \<open>\<^verbatim>\<open>Math.round\<close> rounds to the nearest integer, a half towards plus infinity.\<close>

fun js_round :: "jsnum \<Rightarrow> jsnum" where
  "js_round (Num a) = Num (of_int \<lfloor>a + 1 / 2\<rfloor>)"
| "js_round v = v"

text \<open>\<^verbatim>\<open>Math.min\<close> and \<^verbatim>\<open>Math.max\<close> of two numbers: \<open>NaN\<close> if one of them is.\<close>

definition js_min :: "jsnum \<Rightarrow> jsnum \<Rightarrow> jsnum" where
  "js_min a b = (if a = NaN \<or> b = NaN then NaN else if js_lt b a then b else a)"

definition js_max :: "jsnum \<Rightarrow> jsnum \<Rightarrow> jsnum" where
  "js_max a b = (if a = NaN \<or> b = NaN then NaN else if js_lt a b then b else a)"

text \<open>
  The conversion of a number to an element of a \<^verbatim>\<open>Uint8Array\<close>: \<open>NaN\<close> and the
  infinities become 0, any other number is truncated towards zero and taken modulo 256.
\<close>

fun to_uint8 :: "jsnum \<Rightarrow> int" where
  "to_uint8 (Num a) = (if 0 \<le> a then \<lfloor>a\<rfloor> else - \<lfloor>- a\<rfloor>) mod 256"
| "to_uint8 _ = 0"

section \<open>Arrays\<close>

text \<open>
  \<^verbatim>\<open>levels[0]\<close> on an array of numbers: \<^verbatim>\<open>undefined\<close> when the array is empty.
\<close>

fun first_level :: "jsnum list \<Rightarrow> jsnum" where
  "first_level [] = NaN"
| "first_level (level # _) = level"

text \<open>
  Reading and writing the \<^verbatim>\<open>Float64Array\<close> at an index: a read outside the array
  gives \<^verbatim>\<open>undefined\<close>, a write outside the array is ignored. No operation changes
  the length of the array.
\<close>

definition rd :: "jsnum list \<Rightarrow> int \<Rightarrow> jsnum" where
  "rd result i = (if 0 \<le> i \<and> i < int (length result) then result ! nat i else NaN)"

definition wr :: "jsnum list \<Rightarrow> int \<Rightarrow> jsnum \<Rightarrow> jsnum list" where
  "wr result i v = (if 0 \<le> i \<and> i < int (length result) then result[nat i := v] else result)"

text \<open>\<^verbatim>\<open>result[i] += d\<close>\<close>

definition add_at :: "(real \<Rightarrow> jsnum) \<Rightarrow> jsnum list \<Rightarrow> int \<Rightarrow> jsnum \<Rightarrow> jsnum list" where
  "add_at rnd result i d = wr result i (js_add rnd (rd result i) d)"

section \<open>The level quantizer\<close>

text \<open>
  The loop of \<^verbatim>\<open>findNearestLevel\<close> (lines 21 to 27) over the levels that are still to
  be scanned, on the pair of the local variables \<^verbatim>\<open>nearest\<close> and \<^verbatim>\<open>minDistance\<close>.
\<close>

fun scan_levels ::
  "(real \<Rightarrow> jsnum) \<Rightarrow> jsnum \<Rightarrow> jsnum list \<Rightarrow> jsnum \<times> jsnum \<Rightarrow> jsnum \<times> jsnum" where
  "scan_levels rnd v [] (nearest, minDistance) = (nearest, minDistance)"
| "scan_levels rnd v (level # rest) (nearest, minDistance) =
     (let distance = js_abs (js_sub rnd v level)
      in if js_lt distance minDistance
         then scan_levels rnd v rest (level, distance)
         else scan_levels rnd v rest (nearest, minDistance))"

definition findNearestLevel :: "(real \<Rightarrow> jsnum) \<Rightarrow> jsnum \<Rightarrow> jsnum list \<Rightarrow> jsnum" where
  "findNearestLevel rnd v levels =
     (let nearest = first_level levels;
          minDistance = js_abs (js_sub rnd v (first_level levels))
      in fst (scan_levels rnd v levels (nearest, minDistance)))"

section \<open>The diffusion engine\<close>

text \<open>
  The body of the inner loop of \<^verbatim>\<open>applyErrorDiffusion\<close> (lines 66 to 106) at the pixel
  \<open>(x, y)\<close>, as a function of the working buffer.
\<close>

definition step ::
  "(real \<Rightarrow> jsnum) \<Rightarrow> int \<Rightarrow> int \<Rightarrow> jsnum list \<Rightarrow> int \<Rightarrow> int \<Rightarrow> jsnum list \<Rightarrow> jsnum list" where
  "step rnd width height levels y x result =
     (let index = y * width + x;
          oldPixel = rd result index;
          newPixel = findNearestLevel rnd oldPixel levels;
          r1 = wr result index newPixel;
          error = js_sub rnd oldPixel newPixel;
          r2 = (if x + 1 < width
                then add_at rnd r1 (y * width + (x + 1)) (js_mul rnd error (Num (7 / 16)))
                else r1);
          r3 = (if x - 1 \<ge> 0 \<and> y + 1 < height
                then add_at rnd r2 ((y + 1) * width + (x - 1)) (js_mul rnd error (Num (3 / 16)))
                else r2);
          r4 = (if y + 1 < height
                then add_at rnd r3 ((y + 1) * width + x) (js_mul rnd error (Num (5 / 16)))
                else r3);
          r5 = (if x + 1 < width \<and> y + 1 < height
                then add_at rnd r4 ((y + 1) * width + (x + 1)) (js_mul rnd error (Num (1 / 16)))
                else r4)
      in r5)"

text \<open>The inner loop, from the column \<open>x\<close> on (line 65).\<close>

function loop_x ::
  "(real \<Rightarrow> jsnum) \<Rightarrow> int \<Rightarrow> int \<Rightarrow> jsnum list \<Rightarrow> int \<Rightarrow> int \<Rightarrow> jsnum list \<Rightarrow> jsnum list" where
  "loop_x rnd width height levels y x result =
     (if x < width
      then loop_x rnd width height levels y (x + 1) (step rnd width height levels y x result)
      else result)"
  by pat_completeness auto
termination
  by (relation "measure (\<lambda>(rnd, width, height, levels, y, x, result). nat (width - x))") auto

declare loop_x.simps [simp del]

text \<open>The outer loop, from the row \<open>y\<close> on (line 64).\<close>

function loop_y ::
  "(real \<Rightarrow> jsnum) \<Rightarrow> int \<Rightarrow> int \<Rightarrow> jsnum list \<Rightarrow> int \<Rightarrow> jsnum list \<Rightarrow> jsnum list" where
  "loop_y rnd width height levels y result =
     (if y < height
      then loop_y rnd width height levels (y + 1) (loop_x rnd width height levels y 0 result)
      else result)"
  by pat_completeness auto
termination
  by (relation "measure (\<lambda>(rnd, width, height, levels, y, result). nat (height - y))") auto

declare loop_y.simps [simp del]

text \<open>
  The working buffer when both loops have ended: the copy of the input (line 61) after the
  raster scan.
\<close>

definition diffuse ::
  "(real \<Rightarrow> jsnum) \<Rightarrow> jsnum list \<Rightarrow> int \<Rightarrow> int \<Rightarrow> jsnum list \<Rightarrow> jsnum list" where
  "diffuse rnd imageData width height levels = loop_y rnd width height levels 0 imageData"

text \<open>The function mapped over the working buffer by line 112.\<close>

definition to_output :: "jsnum \<Rightarrow> int" where
  "to_output v = to_uint8 (js_max (Num 0) (js_min (Num 255) (js_round v)))"

definition applyErrorDiffusion ::
  "(real \<Rightarrow> jsnum) \<Rightarrow> jsnum list \<Rightarrow> int \<Rightarrow> int \<Rightarrow> jsnum list \<Rightarrow> int list" where
  "applyErrorDiffusion rnd imageData width height levels =
     map to_output (diffuse rnd imageData width height levels)"

text \<open>
  The claims are stated on integer intensities and integer palettes; \<open>num_of_int\<close> is
  the number that an integer denotes, and \<open>cells_in S k result\<close> says that the cells of
  the working buffer before the index \<open>k\<close> in raster order hold values of \<open>S\<close>.
\<close>

definition num_of_int :: "int \<Rightarrow> jsnum" where
  "num_of_int n = Num (of_int n)"

definition cells_in :: "jsnum set \<Rightarrow> int \<Rightarrow> jsnum list \<Rightarrow> bool" where
  "cells_in S k result = (\<forall>i < length result. int i < k \<longrightarrow> result ! i \<in> S)"

section \<open>Binary64 rounding\<close>

lemma expo_bounds:
  "x \<noteq> 0 \<Longrightarrow> 2 powi expo x \<le> \<bar>x\<bar> \<and> \<bar>x\<bar> < 2 powi (expo x + 1)"
proof (induction x rule: expo.induct)
  case (1 x)
  show ?case
  proof (cases "2 \<le> \<bar>x\<bar>")
    case True
    with "1.prems" have e: "expo x = expo (x / 2) + 1" by (subst expo.simps) simp
    from "1.IH"(1) [OF "1.prems" True] "1.prems"
    have "2 powi expo (x / 2) \<le> \<bar>x / 2\<bar> \<and> \<bar>x / 2\<bar> < 2 powi (expo (x / 2) + 1)" by simp
    then show ?thesis
      unfolding e by (simp add: power_int_add)
  next
    case False
    show ?thesis
    proof (cases "\<bar>x\<bar> < 1")
      case True
      with False "1.prems" have e: "expo x = expo (x * 2) - 1" by (subst expo.simps) simp
      from "1.IH"(2) [OF "1.prems" False True] "1.prems"
      have "2 powi expo (x * 2) \<le> \<bar>x * 2\<bar> \<and> \<bar>x * 2\<bar> < 2 powi (expo (x * 2) + 1)" by simp
      then show ?thesis
        unfolding e by (simp add: power_int_add power_int_diff abs_mult)
    next
      case one: False
      with False "1.prems" have "expo x = 0" by (subst expo.simps) simp
      with False one show ?thesis by simp
    qed
  qed
qed

lemma two_powi_less_cancel:
  assumes "(2::real) powi a < 2 powi b"
  shows "a < b"
proof (rule ccontr)
  assume "\<not> a < b"
  then have "(2::real) powi b \<le> 2 powi a" by (intro power_int_increasing) simp_all
  with assms show False by simp
qed

lemma expo_unique:
  assumes "2 powi e \<le> \<bar>x\<bar>" and "\<bar>x\<bar> < 2 powi (e + 1)"
  shows "expo x = e"
proof -
  have "0 < (2::real) powi e" by simp
  with assms(1) have "0 < \<bar>x\<bar>" by linarith
  then have x: "x \<noteq> 0" by simp
  from expo_bounds [OF x] have b: "2 powi expo x \<le> \<bar>x\<bar>" "\<bar>x\<bar> < 2 powi (expo x + 1)" by simp_all
  have "(2::real) powi e < 2 powi (expo x + 1)" using assms(1) b(2) by simp
  then have "e < expo x + 1" by (rule two_powi_less_cancel)
  moreover have "(2::real) powi expo x < 2 powi (e + 1)" using assms(2) b(1) by simp
  then have "expo x < e + 1" by (rule two_powi_less_cancel)
  ultimately show ?thesis by simp
qed

lemma rne_of_int [simp]: "rne (of_int n) = n"
  by (simp add: rne_def)

lemma rne_bounds: "\<lfloor>r\<rfloor> \<le> rne r \<and> rne r \<le> \<lfloor>r\<rfloor> + 1"
  by (simp add: rne_def Let_def)

text \<open>A number with a significand of 53 bits is not changed by the rounding.\<close>

lemma binary64_representable:
  assumes x: "x = of_int m * 2 powi e" and m: "\<bar>m\<bar> < 2 ^ 53" and e: "- 1074 \<le> e"
    and fin: "\<bar>x\<bar> < 2 ^ 1024"
  shows "binary64 x = Num x"
proof (cases "x = 0")
  case True
  then show ?thesis by (simp add: binary64_def rne_def)
next
  case False
  define q where "q = quantum x"
  from expo_bounds [OF False] have "2 powi expo x \<le> \<bar>x\<bar>" by simp
  also have "\<bar>x\<bar> = of_int \<bar>m\<bar> * 2 powi e" by (simp add: x abs_mult)
  also have "\<dots> < 2 ^ 53 * 2 powi e"
  proof -
    have "real_of_int \<bar>m\<bar> < 2 ^ 53" using m by (metis of_int_less_numeral_power_cancel_iff)
    then show ?thesis by simp
  qed
  also have "\<dots> = 2 powi (53 + e)" by (simp add: power_int_add)
  finally have "expo x < 53 + e" by (rule two_powi_less_cancel)
  with e have qe: "q \<le> e" by (simp add: q_def quantum_def)
  have "x / 2 powi q = of_int m * 2 powi (e - q)"
    by (simp add: x power_int_diff)
  also have "\<dots> = of_int m * 2 ^ nat (e - q)"
    using qe by (simp add: power_int_def)
  also have "\<dots> = of_int (m * 2 ^ nat (e - q))" by simp
  finally have "of_int (rne (x / 2 powi q)) * 2 powi q = x / 2 powi q * 2 powi q"
    by (simp only: rne_of_int)
  also have "\<dots> = x" by simp
  finally have "of_int (rne (x / 2 powi q)) * 2 powi q = x" .
  with fin show ?thesis by (simp add: binary64_def Let_def q_def [symmetric])
qed

lemma binary64_of_int:
  assumes "\<bar>k\<bar> < 2 ^ 53"
  shows "binary64 (of_int k) = Num (of_int k)"
proof (rule binary64_representable [of _ k 0])
  show "real_of_int k = of_int k * 2 powi 0" by simp
  show "\<bar>k\<bar> < 2 ^ 53" by (rule assms)
  show "- 1074 \<le> (0::int)" by simp
  have "\<bar>real_of_int k\<bar> < 2 ^ 53"
    using assms by (metis of_int_abs of_int_less_numeral_power_cancel_iff)
  also have "(2::real) ^ 53 < 2 ^ 1024" by simp
  finally show "\<bar>real_of_int k\<bar> < 2 ^ 1024" .
qed

text \<open>
  In particular a number below \<open>2 ^ 33\<close> in magnitude with at most 20 binary digits after
  the point, which covers the numbers of the scenarios below.
\<close>

lemma binary64_dyadic:
  assumes "x * 2 ^ 20 \<in> \<int>" and "\<bar>x\<bar> < 2 ^ 33"
  shows "binary64 x = Num x"
proof -
  from assms(1) obtain m :: int where m: "x * 2 ^ 20 = of_int m" by (auto elim: Ints_cases)
  show ?thesis
  proof (rule binary64_representable [of _ m "- 20"])
    show "x = of_int m * 2 powi (- 20)"
      using m by (simp add: power_int_minus field_simps)
    have "\<bar>real_of_int m\<bar> = \<bar>x\<bar> * 2 ^ 20" using m by (simp add: abs_mult flip: m)
    also have "\<dots> < 2 ^ 33 * 2 ^ 20" using assms(2) by simp
    also have "\<dots> = 2 ^ 53" by simp
    finally show "\<bar>m\<bar> < 2 ^ 53" by (metis of_int_abs of_int_less_numeral_power_cancel_iff)
    show "- 1074 \<le> (- 20::int)" by simp
    have "(2::real) ^ 33 < 2 ^ 1024" by simp
    with assms(2) show "\<bar>x\<bar> < 2 ^ 1024" by simp
  qed
qed

text \<open>
  A number between \<open>2 powi (q + 52)\<close> and \<open>2 powi (q + 53)\<close> in magnitude is rounded to a
  multiple of \<open>2 powi q\<close>.
\<close>

lemma binary64_rounds:
  assumes "2 powi (q + 52) \<le> \<bar>x\<bar>" and "\<bar>x\<bar> < 2 powi (q + 53)"
    and "- 1074 \<le> q" and "q < 971"
  shows "binary64 x = Num (real_of_int (rne (x / 2 powi q)) * 2 powi q)"
proof -
  define r where "r = x / 2 powi q"
  have "expo x = q + 52"
    using assms(1,2) by (intro expo_unique) (simp_all add: add.commute add.left_commute)
  with assms(3) have qx: "quantum x = q" by (simp add: quantum_def)
  have "\<bar>r\<bar> < 2 powi (q + 53) / 2 powi q"
    using assms(2) by (simp add: r_def divide_strict_right_mono)
  also have "\<dots> = 2 ^ 53" by (simp add: power_int_add)
  finally have r: "\<bar>r\<bar> < 2 ^ 53" .
  then have "- (2 ^ 53) \<le> \<lfloor>r\<rfloor>" and "\<lfloor>r\<rfloor> + 1 \<le> 2 ^ 53"
    by (simp_all add: le_floor_iff floor_less_iff abs_less_iff)
  with rne_bounds [of r] have "\<bar>rne r\<bar> \<le> 2 ^ 53" by linarith
  then have "\<bar>real_of_int (rne r)\<bar> \<le> 2 ^ 53"
    by (metis of_int_abs of_int_le_numeral_power_cancel_iff)
  then have "\<bar>real_of_int (rne r) * 2 powi q\<bar> \<le> 2 ^ 53 * 2 powi q"
    by (simp add: abs_mult)
  also have "\<dots> = 2 powi (53 + q)" by (simp add: power_int_add)
  also have "\<dots> < 2 powi 1024"
    using assms(4) by (intro power_int_strict_increasing) simp_all
  finally have "\<not> 2 ^ 1024 \<le> \<bar>real_of_int (rne r) * 2 powi q\<bar>" by simp
  then show ?thesis
    unfolding binary64_def Let_def qx r_def by (simp only: if_False)
qed

text \<open>
  The rounding at some numbers: one tenth, two integers above \<open>2 ^ 53\<close> (the first a tie),
  the least subnormal number halved (a tie that goes to 0), and an overflow.
\<close>

lemma binary64_examples:
  "binary64 (1 / 10) = Num (3602879701896397 / 2 ^ 55)"
  "binary64 (2 ^ 53 + 1) = Num (2 ^ 53)"
  "binary64 (2 ^ 53 + 3) = Num (2 ^ 53 + 4)"
  "binary64 (1 / 2 ^ 1075) = Num 0"
  "binary64 (2 ^ 1024) = PInf"
proof -
  show "binary64 (1 / 10) = Num (3602879701896397 / 2 ^ 55)"
    by (subst binary64_rounds [of "- 56"]) (simp_all add: rne_def power_int_minus)
  show "binary64 (2 ^ 53 + 1) = Num (2 ^ 53)"
    by (subst binary64_rounds [of 1]) (simp_all add: rne_def)
  show "binary64 (2 ^ 53 + 3) = Num (2 ^ 53 + 4)"
    by (subst binary64_rounds [of 1]) (simp_all add: rne_def)
  have "expo (1 / 2 ^ 1075) = - 1075"
    by (rule expo_unique) (simp_all add: power_int_minus)
  then show "binary64 (1 / 2 ^ 1075) = Num 0"
    by (simp add: binary64_def quantum_def rne_def power_int_minus)
  have "expo (2 ^ 1024) = 1024"
    by (rule expo_unique) simp_all
  then show "binary64 (2 ^ 1024) = PInf"
    by (simp add: binary64_def quantum_def rne_def Let_def)
qed

section \<open>The typed array\<close>

lemma length_wr [simp]: "length (wr result i v) = length result"
  by (simp add: wr_def)

lemma length_add_at [simp]: "length (add_at rnd result i d) = length result"
  by (simp add: add_at_def)

lemma nth_wr: "i < length result \<Longrightarrow> wr result j v ! i = (if j = int i then v else result ! i)"
  by (auto simp: wr_def)

lemma nth_add_at_other: "j \<noteq> int i \<Longrightarrow> add_at rnd result j d ! i = result ! i"
  by (auto simp: add_at_def wr_def)

lemma rd_Num: "rd result j = Num a \<Longrightarrow> 0 \<le> j \<and> j < int (length result)"
  by (simp add: rd_def split: if_splits)

lemma rd_wr:
  "rd (wr result j v) k = (if k = j \<and> 0 \<le> j \<and> j < int (length result) then v else rd result k)"
  by (auto simp: rd_def wr_def)

lemma rd_add_at:
  "rd (add_at rnd result j d) k =
     (if k = j \<and> 0 \<le> j \<and> j < int (length result) then js_add rnd (rd result j) d else rd result k)"
  by (simp add: add_at_def rd_wr)

lemma rd_add_at_same: "rd (add_at rnd result j d) j = js_add rnd (rd result j) d"
  by (simp add: rd_add_at) (simp add: rd_def)

lemma rd_add_at_other: "k \<noteq> j \<Longrightarrow> rd (add_at rnd result j d) k = rd result k"
  by (simp add: rd_add_at)

lemma rd_wr_other: "k \<noteq> j \<Longrightarrow> rd (wr result j v) k = rd result k"
  by (simp add: rd_wr)

lemma length_step [simp]: "length (step rnd width height levels y x result) = length result"
  by (simp add: step_def Let_def)

lemma length_loop_x [simp]: "length (loop_x rnd width height levels y x result) = length result"
  by (induction rnd width height levels y x result rule: loop_x.induct)
     (subst loop_x.simps, simp)

lemma length_loop_y [simp]: "length (loop_y rnd width height levels y result) = length result"
  by (induction rnd width height levels y result rule: loop_y.induct)
     (subst loop_y.simps, simp)

lemma length_diffuse [simp]: "length (diffuse rnd imageData width height levels) = length imageData"
  by (simp add: diffuse_def)

section \<open>The quantizer returns a level\<close>

lemma scan_levels_member:
  "fst (scan_levels rnd v levels (nearest, minDistance)) \<in> insert nearest (set levels)"
  by (induction levels arbitrary: nearest minDistance) (auto simp: Let_def)

lemma findNearestLevel_member:
  assumes "levels \<noteq> []"
  shows "findNearestLevel rnd v levels \<in> set levels"
proof -
  from assms have "first_level levels \<in> set levels" by (cases levels) simp_all
  with scan_levels_member [of rnd v levels "first_level levels" "js_abs (js_sub rnd v (first_level levels))"]
  show ?thesis by (auto simp: findNearestLevel_def Let_def)
qed

lemma findNearestLevel_Nil: "findNearestLevel rnd v [] = NaN"
  by (simp add: findNearestLevel_def)

lemma js_lt_irrefl [simp]: "\<not> js_lt d d"
  by (cases d) simp_all

lemma findNearestLevel_single: "findNearestLevel rnd v [level] = level"
  by (simp add: findNearestLevel_def Let_def)

section \<open>One step of the scan\<close>

text \<open>
  A step at the pixel \<open>(x, y)\<close> writes the cell \<open>y * width + x\<close> and adds to cells after it:
  the cells before it keep their values.
\<close>

lemma step_before:
  assumes "int i < y * width + x" and "0 \<le> x" and "x < width"
  shows "step rnd width height levels y x result ! i = result ! i"
proof -
  have w: "(y + 1) * width = y * width + width" by (simp add: distrib_right)
  show ?thesis
  proof (cases "i < length result")
    case True
    with assms show ?thesis
      by (simp add: step_def Let_def w nth_add_at_other nth_wr)
  next
    case False
    with assms show ?thesis
      by (simp add: step_def Let_def w nth_add_at_other wr_def)
  qed
qed

lemma step_at:
  assumes "i < length result" and "int i = y * width + x" and "0 \<le> x" and "x < width"
  shows "step rnd width height levels y x result ! i = findNearestLevel rnd (result ! i) levels"
proof -
  have e0: "y * width + x = int i"
    and e1: "y * width + (x + 1) = int i + 1"
    and e2: "(y + 1) * width + (x - 1) = int i + width - 1"
    and e3: "(y + 1) * width + x = int i + width"
    and e4: "(y + 1) * width + (x + 1) = int i + width + 1"
    using assms(2) by (simp_all add: distrib_right)
  from assms(1,3,4) show ?thesis
    unfolding step_def Let_def e0 e1 e2 e3 e4
    by (simp add: nth_add_at_other nth_wr rd_def)
qed

lemma step_cells_in:
  assumes q: "\<And>v. findNearestLevel rnd v levels \<in> S"
    and x: "0 \<le> x" "x < width"
    and inv: "cells_in S (y * width + x) result"
  shows "cells_in S (y * width + x + 1) (step rnd width height levels y x result)"
  unfolding cells_in_def
proof (intro allI impI)
  fix i
  assume i: "i < length (step rnd width height levels y x result)"
    and k: "int i < y * width + x + 1"
  show "step rnd width height levels y x result ! i \<in> S"
  proof (cases "int i = y * width + x")
    case True
    with i x show ?thesis by (simp add: step_at q)
  next
    case False
    with k have "int i < y * width + x" by simp
    with i x inv show ?thesis by (simp add: step_before cells_in_def)
  qed
qed

section \<open>The loops\<close>

lemma loop_x_cells_in:
  "(\<And>v. findNearestLevel rnd v levels \<in> S) \<Longrightarrow> 0 \<le> x \<Longrightarrow> x \<le> width
    \<Longrightarrow> cells_in S (y * width + x) result
    \<Longrightarrow> cells_in S (y * width + width) (loop_x rnd width height levels y x result)"
proof (induction rnd width height levels y x result rule: loop_x.induct)
  case (1 rnd width height levels y x result)
  show ?case
  proof (cases "x < width")
    case True
    have "cells_in S (y * width + (x + 1)) (step rnd width height levels y x result)"
      using step_cells_in [OF "1.prems"(1,2) True "1.prems"(4), of height]
      by (simp add: add.assoc)
    with "1.IH" [OF True "1.prems"(1)] "1.prems" True show ?thesis
      by (subst loop_x.simps) simp
  next
    case False
    with "1.prems" have "x = width" by simp
    with "1.prems" show ?thesis by (subst loop_x.simps) simp
  qed
qed

lemma loop_y_cells_in:
  "(\<And>v. findNearestLevel rnd v levels \<in> S) \<Longrightarrow> 0 \<le> width \<Longrightarrow> y \<le> height
    \<Longrightarrow> cells_in S (y * width) result
    \<Longrightarrow> cells_in S (height * width) (loop_y rnd width height levels y result)"
proof (induction rnd width height levels y result rule: loop_y.induct)
  case (1 rnd width height levels y result)
  show ?case
  proof (cases "y < height")
    case True
    have "cells_in S (y * width + width) (loop_x rnd width height levels y 0 result)"
      using loop_x_cells_in [OF "1.prems"(1), of 0 width y result height] "1.prems" by simp
    then have "cells_in S ((y + 1) * width) (loop_x rnd width height levels y 0 result)"
      by (simp add: distrib_right)
    with "1.IH" [OF True "1.prems"(1,2)] True show ?thesis
      by (subst loop_y.simps) simp
  next
    case False
    with "1.prems" have "y = height" by simp
    with "1.prems" show ?thesis by (subst loop_y.simps) simp
  qed
qed

text \<open>
  The rest of a row, and the rows after it, keep the cells before the pixel at which they
  start.
\<close>

lemma loop_x_before:
  "0 \<le> x \<Longrightarrow> int i < y * width + x
    \<Longrightarrow> loop_x rnd width height levels y x result ! i = result ! i"
proof (induction rnd width height levels y x result rule: loop_x.induct)
  case (1 rnd width height levels y x result)
  show ?case
  proof (cases "x < width")
    case True
    have "loop_x rnd width height levels y x result ! i
        = loop_x rnd width height levels y (x + 1) (step rnd width height levels y x result) ! i"
      using True by (subst loop_x.simps) simp
    also have "\<dots> = step rnd width height levels y x result ! i"
      using "1.IH" [OF True] "1.prems" by simp
    also have "\<dots> = result ! i"
      using "1.prems" True by (simp add: step_before)
    finally show ?thesis .
  next
    case False
    then show ?thesis by (subst loop_x.simps) simp
  qed
qed

lemma loop_y_before:
  "0 \<le> width \<Longrightarrow> int i < y * width
    \<Longrightarrow> loop_y rnd width height levels y result ! i = result ! i"
proof (induction rnd width height levels y result rule: loop_y.induct)
  case (1 rnd width height levels y result)
  show ?case
  proof (cases "y < height")
    case True
    from "1.prems" have next_row: "int i < (y + 1) * width"
      by (simp add: distrib_right)
    have "loop_y rnd width height levels y result ! i
        = loop_y rnd width height levels (y + 1) (loop_x rnd width height levels y 0 result) ! i"
      using True by (subst loop_y.simps) simp
    also have "\<dots> = loop_x rnd width height levels y 0 result ! i"
      using "1.IH" [OF True "1.prems"(1) next_row] .
    also have "\<dots> = result ! i"
      using "1.prems" by (simp add: loop_x_before)
    finally show ?thesis .
  next
    case False
    then show ?thesis by (subst loop_y.simps) simp
  qed
qed

lemma diffuse_cells_in:
  assumes "\<And>v. findNearestLevel rnd v levels \<in> S" and "0 \<le> width" and "0 \<le> height"
  shows "cells_in S (height * width) (diffuse rnd imageData width height levels)"
  unfolding diffuse_def
  using loop_y_cells_in [OF assms(1,2), of 0 height imageData] assms(3)
  by (simp add: cells_in_def)

lemma diffuse_all_in:
  assumes "\<And>v. findNearestLevel rnd v levels \<in> S" and "0 \<le> width" and "0 \<le> height"
    and "int (length imageData) = width * height"
  shows "set (diffuse rnd imageData width height levels) \<subseteq> S"
proof
  fix v assume "v \<in> set (diffuse rnd imageData width height levels)"
  then obtain i where i: "i < length imageData" "diffuse rnd imageData width height levels ! i = v"
    by (auto simp: in_set_conv_nth)
  with diffuse_cells_in [OF assms(1-3), of imageData] assms(4) show "v \<in> S"
    by (auto simp: cells_in_def mult.commute)
qed

section \<open>The conversion to the output\<close>

lemma js_min_Num [simp]: "js_min (Num a) (Num b) = Num (min a b)"
  by (simp add: js_min_def min_def)

lemma js_max_Num [simp]: "js_max (Num a) (Num b) = Num (max a b)"
  by (simp add: js_max_def max_def)

lemma js_min_NaN [simp]: "js_min a NaN = NaN" "js_min NaN b = NaN"
  by (simp_all add: js_min_def)

lemma js_max_NaN [simp]: "js_max a NaN = NaN" "js_max NaN b = NaN"
  by (simp_all add: js_max_def)

lemma js_min_Inf [simp]: "js_min (Num a) PInf = Num a" "js_min (Num a) NInf = NInf"
  by (simp_all add: js_min_def)

lemma js_max_Inf [simp]: "js_max (Num a) PInf = PInf" "js_max (Num a) NInf = Num a"
  by (simp_all add: js_max_def)

lemma to_output_Num: "to_output (Num a) = max 0 (min 255 \<lfloor>a + 1 / 2\<rfloor>)"
proof -
  define n where "n = \<lfloor>a + 1 / 2\<rfloor>"
  have "min (255::real) (of_int n) = of_int (min 255 n)"
    and "max (0::real) (of_int (min 255 n)) = of_int (max 0 (min 255 n))"
    by (simp_all add: min_def max_def)
  then have "to_output (Num a) = to_uint8 (Num (of_int (max 0 (min 255 n))))"
    by (simp add: to_output_def n_def)
  also have "\<dots> = max 0 (min 255 n)"
    by simp
  finally show ?thesis by (simp add: n_def)
qed

lemma to_output_NaN: "to_output NaN = 0"
  by (simp add: to_output_def)

lemma to_output_Inf: "to_output PInf = 255" "to_output NInf = 0"
  by (simp_all add: to_output_def)

lemma to_output_level: "to_output (num_of_int p) = max 0 (min 255 p)"
proof -
  have "\<lfloor>real_of_int p + 1 / 2\<rfloor> = p" by linarith
  then show ?thesis by (simp add: num_of_int_def to_output_Num)
qed

section \<open>Loops that do not run, and constant buffers\<close>

lemma map_const_on_set:
  assumes "set xs \<subseteq> {a}"
  shows "map f xs = replicate (length xs) (f a)"
  using assms by (induction xs) auto

lemma loop_x_done: "\<not> x < width \<Longrightarrow> loop_x rnd width height levels y x result = result"
  by (subst loop_x.simps) simp

lemma loop_y_done: "\<not> y < height \<Longrightarrow> loop_y rnd width height levels y result = result"
  by (subst loop_y.simps) simp

lemma loop_y_no_columns: "width \<le> 0 \<Longrightarrow> loop_y rnd width height levels y result = result"
proof (induction rnd width height levels y result rule: loop_y.induct)
  case (1 rnd width height levels y result)
  show ?case
  proof (cases "y < height")
    case True
    with "1.prems" "1.IH" show ?thesis
      by (subst loop_y.simps) (simp add: loop_x_done)
  next
    case False
    then show ?thesis by (rule loop_y_done)
  qed
qed

lemma diffuse_one_by_one: "diffuse rnd [u] 1 1 levels = [findNearestLevel rnd u levels]"
  by (simp add: diffuse_def loop_y.simps loop_x.simps step_def rd_def wr_def Let_def)

section \<open>The quantizer returns a nearest level\<close>

text \<open>
  When no subtraction \<open>v - l\<close> of the scan is rounded, the scan keeps the invariant that
  \<open>minDistance\<close> is the distance of \<open>nearest\<close>, and it replaces \<open>nearest\<close> on a strict
  improvement only.
\<close>

lemma scan_levels_nearest:
  assumes "\<forall>l \<in> set ls. rnd (v - l) = Num (v - l)"
  shows "\<exists>m. scan_levels rnd (Num v) (map Num ls) (Num n, Num \<bar>v - n\<bar>) = (Num m, Num \<bar>v - m\<bar>)
     \<and> m \<in> insert n (set ls)
     \<and> (\<forall>q \<in> insert n (set ls). \<bar>v - m\<bar> \<le> \<bar>v - q\<bar>)
     \<and> (m = n \<or> \<bar>v - m\<bar> < \<bar>v - n\<bar>)
     \<and> (sorted ls \<and> (\<forall>q \<in> set ls. n \<le> q)
          \<longrightarrow> (\<forall>q \<in> insert n (set ls). \<bar>v - q\<bar> = \<bar>v - m\<bar> \<longrightarrow> m \<le> q))"
  using assms
proof (induction ls arbitrary: n)
  case Nil
  show ?case by simp
next
  case (Cons l ls)
  from Cons.prems have el: "rnd (v - l) = Num (v - l)"
    and rest: "\<forall>l \<in> set ls. rnd (v - l) = Num (v - l)"
    by simp_all
  show ?case
  proof (cases "\<bar>v - l\<bar> < \<bar>v - n\<bar>")
    case True
    from Cons.IH [OF rest, of l] obtain m where
      m: "scan_levels rnd (Num v) (map Num ls) (Num l, Num \<bar>v - l\<bar>) = (Num m, Num \<bar>v - m\<bar>)"
      and mem: "m \<in> insert l (set ls)"
      and least: "\<forall>q \<in> insert l (set ls). \<bar>v - m\<bar> \<le> \<bar>v - q\<bar>"
      and tie: "sorted ls \<and> (\<forall>q \<in> set ls. l \<le> q)
          \<longrightarrow> (\<forall>q \<in> insert l (set ls). \<bar>v - q\<bar> = \<bar>v - m\<bar> \<longrightarrow> m \<le> q)"
      by blast
    from least have ml: "\<bar>v - m\<bar> \<le> \<bar>v - l\<bar>" by simp
    have "scan_levels rnd (Num v) (map Num (l # ls)) (Num n, Num \<bar>v - n\<bar>)
        = (Num m, Num \<bar>v - m\<bar>)"
      using True m el by simp
    moreover have "m \<in> insert n (set (l # ls))" using mem by auto
    moreover have "\<forall>q \<in> insert n (set (l # ls)). \<bar>v - m\<bar> \<le> \<bar>v - q\<bar>"
      using least ml True by auto
    moreover have "m = n \<or> \<bar>v - m\<bar> < \<bar>v - n\<bar>" using ml True by simp
    moreover have "sorted (l # ls) \<and> (\<forall>q \<in> set (l # ls). n \<le> q)
          \<longrightarrow> (\<forall>q \<in> insert n (set (l # ls)). \<bar>v - q\<bar> = \<bar>v - m\<bar> \<longrightarrow> m \<le> q)"
      using tie ml True by auto
    ultimately show ?thesis by blast
  next
    case False
    from Cons.IH [OF rest, of n] obtain m where
      m: "scan_levels rnd (Num v) (map Num ls) (Num n, Num \<bar>v - n\<bar>) = (Num m, Num \<bar>v - m\<bar>)"
      and mem: "m \<in> insert n (set ls)"
      and least: "\<forall>q \<in> insert n (set ls). \<bar>v - m\<bar> \<le> \<bar>v - q\<bar>"
      and strict: "m = n \<or> \<bar>v - m\<bar> < \<bar>v - n\<bar>"
      and tie: "sorted ls \<and> (\<forall>q \<in> set ls. n \<le> q)
          \<longrightarrow> (\<forall>q \<in> insert n (set ls). \<bar>v - q\<bar> = \<bar>v - m\<bar> \<longrightarrow> m \<le> q)"
      by blast
    from least have mn: "\<bar>v - m\<bar> \<le> \<bar>v - n\<bar>" by simp
    have "scan_levels rnd (Num v) (map Num (l # ls)) (Num n, Num \<bar>v - n\<bar>)
        = (Num m, Num \<bar>v - m\<bar>)"
      using False m el by simp
    moreover have "m \<in> insert n (set (l # ls))" using mem by auto
    moreover have "\<forall>q \<in> insert n (set (l # ls)). \<bar>v - m\<bar> \<le> \<bar>v - q\<bar>"
      using least mn False by auto
    moreover have "sorted (l # ls) \<and> (\<forall>q \<in> set (l # ls). n \<le> q)
          \<longrightarrow> (\<forall>q \<in> insert n (set (l # ls)). \<bar>v - q\<bar> = \<bar>v - m\<bar> \<longrightarrow> m \<le> q)"
      using tie strict mn False by auto
    ultimately show ?thesis using strict by blast
  qed
qed

lemma findNearestLevel_nearest:
  assumes "ls \<noteq> []" and ex: "\<forall>l \<in> set ls. rnd (v - l) = Num (v - l)"
  shows "\<exists>m \<in> set ls. findNearestLevel rnd (Num v) (map Num ls) = Num m
     \<and> (\<forall>q \<in> set ls. \<bar>v - m\<bar> \<le> \<bar>v - q\<bar>)
     \<and> (sorted ls \<longrightarrow> (\<forall>q \<in> set ls. \<bar>v - q\<bar> = \<bar>v - m\<bar> \<longrightarrow> m \<le> q))"
proof -
  from assms(1) obtain l rest where ls: "ls = l # rest" by (cases ls) auto
  with ex have el: "rnd (v - l) = Num (v - l)" by simp
  from scan_levels_nearest [OF ex, of l] obtain m where
    m: "scan_levels rnd (Num v) (map Num ls) (Num l, Num \<bar>v - l\<bar>) = (Num m, Num \<bar>v - m\<bar>)"
    and mem: "m \<in> insert l (set ls)"
    and least: "\<forall>q \<in> insert l (set ls). \<bar>v - m\<bar> \<le> \<bar>v - q\<bar>"
    and tie: "sorted ls \<and> (\<forall>q \<in> set ls. l \<le> q)
          \<longrightarrow> (\<forall>q \<in> insert l (set ls). \<bar>v - q\<bar> = \<bar>v - m\<bar> \<longrightarrow> m \<le> q)"
    by blast
  have "findNearestLevel rnd (Num v) (map Num ls) = Num m"
    using m el by (simp add: findNearestLevel_def ls)
  moreover have "m \<in> set ls" using mem ls by auto
  moreover have "\<forall>q \<in> set ls. \<bar>v - m\<bar> \<le> \<bar>v - q\<bar>" using least by simp
  moreover have "sorted ls \<longrightarrow> (\<forall>q \<in> set ls. \<bar>v - q\<bar> = \<bar>v - m\<bar> \<longrightarrow> m \<le> q)"
    using tie ls by auto
  ultimately show ?thesis by blast
qed

section \<open>The quantizer returns a level of least computed distance\<close>




text \<open>The definitions and facts that evaluate a run on a buffer of numerals.\<close>

lemmas evaluate =
  applyErrorDiffusion_def diffuse_def loop_y.simps loop_x.simps step_def findNearestLevel_def
  rd_def wr_def add_at_def to_output_def num_of_int_def exact_def Let_def
  binary64_dyadic

section \<open>Palette membership and dimensions\<close>

text \<open>
  Claim C1. For a buffer of \<open>width * height\<close> cells with \<open>width\<close> and \<open>height\<close> not
  negative, and a non-empty palette of integers between 0 and 255,
  \<open>applyErrorDiffusion\<close> returns a buffer of \<open>width * height\<close> elements, each of them a
  member of the palette. The theorem needs neither the order of the palette nor any bound on the
  cells of the input, which may be any numbers, and it holds whatever the rounding of the
  arithmetic is.
\<close>

theorem C1_palette_membership:
  assumes "0 \<le> width" and "0 \<le> height"
    and "int (length imageData) = width * height"
    and "palette \<noteq> []"
    and "\<forall>p \<in> set palette. 0 \<le> p \<and> p \<le> 255"
  shows "length (applyErrorDiffusion rnd imageData width height (map num_of_int palette))
           = nat (width * height)
         \<and> (\<forall>e \<in> set (applyErrorDiffusion rnd imageData width height (map num_of_int palette)).
              e \<in> set palette)"
proof -
  let ?levels = "map num_of_int palette"
  have "findNearestLevel rnd v ?levels \<in> set ?levels" for v
    using assms(4) by (intro findNearestLevel_member) simp
  then have sub: "set (diffuse rnd imageData width height ?levels) \<subseteq> set ?levels"
    using assms(1-3) by (rule diffuse_all_in)
  have "e \<in> set palette"
    if "e \<in> set (applyErrorDiffusion rnd imageData width height ?levels)" for e
  proof -
    from that obtain v where v: "v \<in> set (diffuse rnd imageData width height ?levels)"
      and e: "e = to_output v"
      by (auto simp: applyErrorDiffusion_def)
    from v sub obtain p where p: "p \<in> set palette" and "v = num_of_int p" by auto
    with e have "e = max 0 (min 255 p)" by (simp add: to_output_level)
    with p assms(5) show ?thesis by auto
  qed
  moreover have "length (applyErrorDiffusion rnd imageData width height ?levels) = nat (width * height)"
    using assms(3) by (simp add: applyErrorDiffusion_def)
  ultimately show ?thesis by blast
qed

text \<open>The theorem at the 2 by 2 buffer of the spec's third scenario, in binary64.\<close>

theorem C1_palette_membership_witness:
  "(0::int) \<le> 2 \<and> (0::int) \<le> 2
   \<and> int (length [Num 100, Num 100, Num 100, Num 100]) = 2 * 2
   \<and> [0, 255] \<noteq> ([]::int list)
   \<and> list_all (\<lambda>p. 0 \<le> p \<and> p \<le> 255) [0, 255::int]
   \<and> length (applyErrorDiffusion binary64 [Num 100, Num 100, Num 100, Num 100] 2 2
         (map num_of_int [0, 255])) = nat (2 * 2)
   \<and> list_all (\<lambda>e. e \<in> set [0, 255])
         (applyErrorDiffusion binary64 [Num 100, Num 100, Num 100, Num 100] 2 2 (map num_of_int [0, 255]))"
  using C1_palette_membership [where rnd = binary64 and width = 2 and height = 2
      and imageData = "[Num 100, Num 100, Num 100, Num 100]" and palette = "[0, 255]"]
  by (simp add: list_all_iff)

section \<open>A palette of one level\<close>

text \<open>
  Claim C6. With a palette of exactly one level \<open>L\<close> between 0 and 255 and valid
  dimensions, the output is \<open>L\<close> in every cell, whatever the input holds (any number, also
  an infinity or \<open>NaN\<close>) and whatever the rounding is.
\<close>

theorem C6_single_level:
  assumes "0 \<le> width" and "0 \<le> height"
    and "int (length imageData) = width * height"
    and "0 \<le> L" and "L \<le> 255"
  shows "applyErrorDiffusion rnd imageData width height [num_of_int L]
           = replicate (length imageData) L"
proof -
  have "findNearestLevel rnd v [num_of_int L] \<in> {num_of_int L}" for v
    by (simp add: findNearestLevel_single)
  then have "set (diffuse rnd imageData width height [num_of_int L]) \<subseteq> {num_of_int L}"
    using assms(1-3) by (rule diffuse_all_in)
  then have "applyErrorDiffusion rnd imageData width height [num_of_int L]
      = replicate (length imageData) (to_output (num_of_int L))"
    unfolding applyErrorDiffusion_def by (simp add: map_const_on_set)
  with assms(4,5) show ?thesis by (simp add: to_output_level)
qed

text \<open>
  The theorem at a 2 by 3 buffer that holds values outside the range of intensities, an infinity and
  a \<open>NaN\<close>, in binary64.
\<close>

theorem C6_single_level_witness:
  "(0::int) \<le> 2 \<and> (0::int) \<le> 3 \<and> int (length [Num 0, PInf, Num 17, NaN, Num 300.5, Num (-4)]) = 2 * 3
   \<and> (0::int) \<le> 128 \<and> (128::int) \<le> 255
   \<and> applyErrorDiffusion binary64 [Num 0, PInf, Num 17, NaN, Num 300.5, Num (-4)] 2 3 [num_of_int 128]
       = [128, 128, 128, 128, 128, 128]"
  using C6_single_level [where rnd = binary64 and width = 2 and height = 3
      and imageData = "[Num 0, PInf, Num 17, NaN, Num 300.5, Num (-4)]" and L = 128]
  by (simp add: numeral_eq_Suc)

section \<open>An empty palette\<close>

text \<open>
  Claim C2 says that the engine fails with \<open>EmptyPalette\<close> on an empty palette. The source
  has no such check and no statement that throws: \<^verbatim>\<open>levels[0]\<close> is
  \<^verbatim>\<open>undefined\<close>, the loop over the levels does not run, and the call returns a buffer.
  On the buffer \<open>[100]\<close> of width 1 and height 1 the quantizer returns \<open>NaN\<close> and the
  engine returns \<open>[0]\<close>.
\<close>

theorem C2_empty_palette_counterexample:
  "findNearestLevel binary64 (Num 100) [] = NaN \<and> applyErrorDiffusion binary64 [Num 100] 1 1 [] = [0]"
  by (simp add: evaluate)

text \<open>
  Claim C2, as the code has it. With an empty palette \<open>findNearestLevel\<close> returns
  \<^verbatim>\<open>undefined\<close> (here \<open>NaN\<close>) for every value, and for valid dimensions
  \<open>applyErrorDiffusion\<close> returns a buffer of the input's length that holds 0 in every cell:
  each visited cell becomes \<open>NaN\<close>, which the conversion to \<^verbatim>\<open>Uint8Array\<close> turns
  into 0.
\<close>

theorem C2_empty_palette_returns_zeros:
  assumes "0 \<le> width" and "0 \<le> height"
    and "int (length imageData) = width * height"
  shows "findNearestLevel rnd v [] = NaN
         \<and> applyErrorDiffusion rnd imageData width height [] = replicate (length imageData) 0"
proof -
  have "findNearestLevel rnd v [] \<in> {NaN}" for v
    by (simp add: findNearestLevel_Nil)
  then have "set (diffuse rnd imageData width height []) \<subseteq> {NaN}"
    using assms by (rule diffuse_all_in)
  then have "applyErrorDiffusion rnd imageData width height []
      = replicate (length imageData) (to_output NaN)"
    unfolding applyErrorDiffusion_def by (simp add: map_const_on_set)
  then show ?thesis by (simp add: to_output_NaN findNearestLevel_Nil)
qed

text \<open>
  The theorem at a buffer of width 2 and height 1.
\<close>

theorem C2_empty_palette_returns_zeros_witness:
  "(0::int) \<le> 2 \<and> (0::int) \<le> 1 \<and> int (length [Num 60, Num 200]) = 2 * 1
   \<and> findNearestLevel binary64 (Num 60) [] = NaN
   \<and> applyErrorDiffusion binary64 [Num 60, Num 200] 2 1 [] = [0, 0]"
  using C2_empty_palette_returns_zeros [where rnd = binary64 and width = 2 and height = 1
      and imageData = "[Num 60, Num 200]" and v = "Num 60"]
  by (simp add: numeral_eq_Suc)

section \<open>Dimensions that do not fit the buffer\<close>

text \<open>
  Claim C3 says that the engine fails with \<open>InvalidDimensions\<close> when a dimension is
  negative or the length of the buffer is not \<open>width * height\<close>. The source checks neither:
  with width and height \<open>-1\<close> the buffer \<open>[7]\<close> comes back as \<open>[7]\<close>, and with
  width 1 and height 1 the buffer \<open>[1, 2, 3]\<close> comes back with its first cell quantized and
  the two other cells as they were.
\<close>

theorem C3_dimensions_counterexample:
  "applyErrorDiffusion binary64 [Num 7] (- 1) (- 1) [Num 0, Num 255] = [7]
   \<and> applyErrorDiffusion binary64 [Num 1, Num 2, Num 3] 1 1 [Num 0, Num 255] = [0, 2, 3]"
  by (simp add: evaluate)

text \<open>
  Claim C3, as the code has it. When the width or the height is negative no pixel is
  processed, and the engine returns the input converted cell by cell (rounded, clamped to 0 and
  255); whatever the dimensions are, the buffer returned has the length of the input buffer; and
  when neither dimension is negative and the palette is not empty, the scan has quantized the
  cells of the buffer before the index \<open>width * height\<close> to palette members, also when the
  length of the buffer is not \<open>width * height\<close>.
\<close>

theorem C3_no_dimension_check:
  "(width < 0 \<or> height < 0 \<longrightarrow>
      applyErrorDiffusion rnd imageData width height levels = map to_output imageData)
   \<and> length (applyErrorDiffusion rnd imageData width height levels) = length imageData
   \<and> (0 \<le> width \<and> 0 \<le> height \<and> levels \<noteq> [] \<longrightarrow>
        cells_in (set levels) (width * height) (diffuse rnd imageData width height levels))"
proof (intro conjI impI)
  assume "width < 0 \<or> height < 0"
  then have "loop_y rnd width height levels 0 imageData = imageData"
  proof
    assume "width < 0"
    then show ?thesis by (simp add: loop_y_no_columns)
  next
    assume "height < 0"
    then show ?thesis by (simp add: loop_y_done)
  qed
  then show "applyErrorDiffusion rnd imageData width height levels = map to_output imageData"
    by (simp add: applyErrorDiffusion_def diffuse_def)
next
  show "length (applyErrorDiffusion rnd imageData width height levels) = length imageData"
    by (simp add: applyErrorDiffusion_def)
next
  assume a: "0 \<le> width \<and> 0 \<le> height \<and> levels \<noteq> []"
  then have "findNearestLevel rnd v levels \<in> set levels" for v
    by (simp add: findNearestLevel_member)
  then have "cells_in (set levels) (height * width) (diffuse rnd imageData width height levels)"
    using a by (intro diffuse_cells_in) simp_all
  then show "cells_in (set levels) (width * height) (diffuse rnd imageData width height levels)"
    by (simp add: mult.commute)
qed

text \<open>
  The theorem at the width \<open>-3\<close>, on a buffer with a value above 255 and a value that
  is not an integer, and at a buffer of three cells taken as 1 by 1.
\<close>

theorem C3_no_dimension_check_witness:
  "((- 3::int) < 0 \<or> (2::int) < 0)
   \<and> applyErrorDiffusion binary64 [Num 7, Num 300, Num 12.5] (- 3) 2 [Num 0, Num 255] = [7, 255, 13]
   \<and> length (applyErrorDiffusion binary64 [Num 7, Num 300, Num 12.5] (- 3) 2 [Num 0, Num 255]) = 3
   \<and> (0::int) \<le> 1 \<and> (0::int) \<le> 1 \<and> [Num 0, Num 255] \<noteq> []
   \<and> cells_in (set [Num 0, Num 255]) (1 * 1) (diffuse binary64 [Num 1, Num 2, Num 3] 1 1 [Num 0, Num 255])"
  using C3_no_dimension_check [where rnd = binary64 and width = "- 3" and height = 2
      and imageData = "[Num 7, Num 300, Num 12.5]" and levels = "[Num 0, Num 255]"]
    C3_no_dimension_check [where rnd = binary64 and width = 1 and height = 1
      and imageData = "[Num 1, Num 2, Num 3]" and levels = "[Num 0, Num 255]"]
  by (simp add: to_output_Num)

section \<open>The output is in the range of a byte\<close>

text \<open>
  Claim C10. For valid dimensions and a non-empty palette of integers of any size, every
  element of the output is between 0 and 255: it is a palette member rounded (which leaves an
  integer as it is) and clamped to at least 0 and at most 255.
\<close>

theorem C10_output_in_byte_range:
  assumes "0 \<le> width" and "0 \<le> height"
    and "int (length imageData) = width * height"
    and "palette \<noteq> []"
  shows "\<forall>e \<in> set (applyErrorDiffusion rnd imageData width height (map num_of_int palette)).
           0 \<le> e \<and> e \<le> 255 \<and> (\<exists>p \<in> set palette. e = max 0 (min 255 p))"
proof
  let ?levels = "map num_of_int palette"
  fix e assume "e \<in> set (applyErrorDiffusion rnd imageData width height ?levels)"
  then obtain v where v: "v \<in> set (diffuse rnd imageData width height ?levels)"
    and e: "e = to_output v"
    by (auto simp: applyErrorDiffusion_def)
  have "findNearestLevel rnd u ?levels \<in> set ?levels" for u
    using assms(4) by (intro findNearestLevel_member) simp
  then have "set (diffuse rnd imageData width height ?levels) \<subseteq> set ?levels"
    using assms(1-3) by (rule diffuse_all_in)
  with v obtain p where p: "p \<in> set palette" and "v = num_of_int p" by auto
  with e have "e = max 0 (min 255 p)" by (simp add: to_output_level)
  with p show "0 \<le> e \<and> e \<le> 255 \<and> (\<exists>p \<in> set palette. e = max 0 (min 255 p))"
    by auto
qed

text \<open>
  The theorem at the palette \<open>[-50, 300]\<close>, both of whose members are outside the range.
\<close>

theorem C10_output_in_byte_range_witness:
  "(0::int) \<le> 2 \<and> (0::int) \<le> 1 \<and> int (length [Num 60, Num 200]) = 2 * 1
   \<and> [- 50, 300] \<noteq> ([]::int list)
   \<and> list_all (\<lambda>e. 0 \<le> e \<and> e \<le> 255 \<and> (\<exists>p \<in> set [- 50, 300]. e = max 0 (min 255 p)))
        (applyErrorDiffusion binary64 [Num 60, Num 200] 2 1 (map num_of_int [- 50, 300]))"
  using C10_output_in_byte_range [where rnd = binary64 and width = 2 and height = 1
      and imageData = "[Num 60, Num 200]" and palette = "[- 50, 300]"]
  by (simp add: list_all_iff)

section \<open>Each cell is written once\<close>

text \<open>
  Claim C9. Let the scan visit the pixel \<open>(x, y)\<close> of the grid with the working buffer
  \<open>result\<close>, the palette not empty. The step changes no cell before \<open>y * width + x\<close> in
  raster order, so its deposits go to later cells only; it keeps the invariant that the cells
  already visited hold palette members, now with the pixel itself among them; after the rest of
  the row and all later rows the pixel still holds the level that the step wrote, a palette
  member; and when the buffer has \<open>width * height\<close> cells, every cell holds a palette member
  at the end of the scan.
\<close>

theorem C9_single_write_invariant:
  assumes "0 \<le> x" and "x < width" and "0 \<le> y" and "y < height" and "levels \<noteq> []"
  shows "(\<forall>i. int i < y * width + x \<longrightarrow> step rnd width height levels y x result ! i = result ! i)
    \<and> (cells_in (set levels) (y * width + x) result
         \<longrightarrow> cells_in (set levels) (y * width + x + 1) (step rnd width height levels y x result))
    \<and> (y * width + x < int (length result) \<longrightarrow>
         rd (loop_y rnd width height levels (y + 1)
              (loop_x rnd width height levels y (x + 1) (step rnd width height levels y x result)))
            (y * width + x)
           = findNearestLevel rnd (rd result (y * width + x)) levels
         \<and> findNearestLevel rnd (rd result (y * width + x)) levels \<in> set levels)
    \<and> (int (length imageData) = width * height
         \<longrightarrow> set (diffuse rnd imageData width height levels) \<subseteq> set levels)"
proof (intro conjI impI allI)
  fix i assume "int i < y * width + x"
  then show "step rnd width height levels y x result ! i = result ! i"
    using assms(1,2) by (rule step_before)
next
  have q: "findNearestLevel rnd v levels \<in> set levels" for v
    using assms(5) by (rule findNearestLevel_member)
  assume "cells_in (set levels) (y * width + x) result"
  with q assms(1,2)
  show "cells_in (set levels) (y * width + x + 1) (step rnd width height levels y x result)"
    by (rule step_cells_in)
next
  assume len: "y * width + x < int (length result)"
  have w: "0 \<le> width" using assms(1,2) by simp
  then have yw: "0 \<le> y * width" using assms(3) by simp
  define i where "i = nat (y * width + x)"
  have i: "int i = y * width + x" using yw assms(1) by (simp add: i_def)
  with len have il: "i < length result" by simp
  let ?s = "step rnd width height levels y x result"
  let ?r = "loop_x rnd width height levels y (x + 1) ?s"
  let ?f = "loop_y rnd width height levels (y + 1) ?r"
  have "?f ! i = ?r ! i"
    using w i assms(2) by (intro loop_y_before) (simp_all add: distrib_right)
  also have "\<dots> = ?s ! i"
    using i assms(1) by (intro loop_x_before) simp_all
  also have "\<dots> = findNearestLevel rnd (result ! i) levels"
    using il i assms(1,2) by (rule step_at)
  finally have "?f ! i = findNearestLevel rnd (result ! i) levels" .
  moreover have "rd ?f (y * width + x) = ?f ! i"
    using il yw assms(1) len by (simp add: rd_def i_def)
  moreover have "rd result (y * width + x) = result ! i"
    using il yw assms(1) len by (simp add: rd_def i_def)
  ultimately show "rd ?f (y * width + x) = findNearestLevel rnd (rd result (y * width + x)) levels"
    by simp
next
  show "findNearestLevel rnd (rd result (y * width + x)) levels \<in> set levels"
    using assms(5) by (rule findNearestLevel_member)
next
  have q: "findNearestLevel rnd v levels \<in> set levels" for v
    using assms(5) by (rule findNearestLevel_member)
  have w: "0 \<le> width" and h: "0 \<le> height" using assms(1-4) by simp_all
  assume "int (length imageData) = width * height"
  with q w h show "set (diffuse rnd imageData width height levels) \<subseteq> set levels"
    by (rule diffuse_all_in)
qed

text \<open>
  The theorem at the second step of the 2 by 2 scenario, which visits the pixel
  \<open>(1, 0)\<close> when it holds 143.75.
\<close>

theorem C9_single_write_invariant_witness:
  "(0::int) \<le> 1 \<and> (1::int) < 2 \<and> (0::int) \<le> 0 \<and> (0::int) < 2 \<and> [Num 0, Num 255] \<noteq> []
   \<and> step binary64 2 2 [Num 0, Num 255] 0 1 [Num 0, Num 143.75, Num 131.25, Num 106.25] ! 0 = Num 0
   \<and> cells_in (set [Num 0, Num 255]) (0 * 2 + 1) [Num 0, Num 143.75, Num 131.25, Num 106.25]
   \<and> cells_in (set [Num 0, Num 255]) (0 * 2 + 1 + 1)
        (step binary64 2 2 [Num 0, Num 255] 0 1 [Num 0, Num 143.75, Num 131.25, Num 106.25])
   \<and> rd (loop_y binary64 2 2 [Num 0, Num 255] (0 + 1)
          (loop_x binary64 2 2 [Num 0, Num 255] 0 (1 + 1)
            (step binary64 2 2 [Num 0, Num 255] 0 1 [Num 0, Num 143.75, Num 131.25, Num 106.25])))
        (0 * 2 + 1) = Num 255
   \<and> int (length [Num 100, Num 100, Num 100, Num 100]) = 2 * 2
   \<and> set (diffuse binary64 [Num 100, Num 100, Num 100, Num 100] 2 2 [Num 0, Num 255])
        \<subseteq> set [Num 0, Num 255]"
proof -
  let ?r = "[Num 0, Num 143.75, Num 131.25, Num 106.25]"
  let ?l = "[Num 0, Num 255]"
  note t = C9_single_write_invariant [where rnd = binary64 and x = 1 and width = 2 and y = 0
      and height = 2 and levels = ?l and result = ?r
      and imageData = "[Num 100, Num 100, Num 100, Num 100]", simplified]
  have c: "cells_in (set ?l) (0 * 2 + 1) ?r"
    by (simp add: cells_in_def)
  have f: "findNearestLevel binary64 (rd ?r 1) ?l = Num 255"
    by (simp add: rd_def findNearestLevel_def binary64_dyadic)
  from t c f show ?thesis by simp
qed
section \<open>The 2 by 2 scenario\<close>

text \<open>
  No number of the run on the buffer \<open>[100, 100, 100, 100]\<close> has more than 20 binary digits
  after the point, so the run is the same for every rounding that leaves such numbers as they
  are.
\<close>

lemma two_by_two_run:
  assumes "\<forall>x. x * 2 ^ 20 \<in> \<int> \<and> \<bar>x\<bar> < 2 ^ 33 \<longrightarrow> rnd x = Num x"
  shows
  "applyErrorDiffusion rnd [Num 100, Num 100, Num 100, Num 100] 2 2 [Num 0, Num 255]
       = [0, 255, 0, 0]
   \<and> step rnd 2 2 [Num 0, Num 255] 0 0 [Num 100, Num 100, Num 100, Num 100]
       = [Num 0, Num 143.75, Num 131.25, Num 106.25]
   \<and> findNearestLevel rnd (Num 143.75) [Num 0, Num 255] = Num 255
   \<and> step rnd 2 2 [Num 0, Num 255] 0 1 [Num 0, Num 143.75, Num 131.25, Num 106.25]
       = [Num 0, Num 255, Num 110.390625, Num 71.484375]
   \<and> step rnd 2 2 [Num 0, Num 255] 1 0 [Num 0, Num 255, Num 110.390625, Num 71.484375]
       = [Num 0, Num 255, Num 0, Num 119.7802734375]
   \<and> diffuse rnd [Num 100, Num 100, Num 100, Num 100] 2 2 [Num 0, Num 255]
       = [Num 0, Num 255, Num 0, Num 0]"
proof -
  let ?l = "[Num 0, Num 255]"
  from assms have r: "rnd x = Num x" if "x * 2 ^ 20 \<in> \<int>" and "\<bar>x\<bar> < 2 ^ 33" for x
    using that by blast
  note one_step = step_def findNearestLevel_def rd_def wr_def add_at_def Let_def r
  have q: "findNearestLevel rnd (Num 143.75) ?l = Num 255"
    by (simp add: findNearestLevel_def r)
  have s1: "step rnd 2 2 ?l 0 0 [Num 100, Num 100, Num 100, Num 100]
      = [Num 0, Num 143.75, Num 131.25, Num 106.25]"
    by (simp add: one_step)
  have s2: "step rnd 2 2 ?l 0 1 [Num 0, Num 143.75, Num 131.25, Num 106.25]
      = [Num 0, Num 255, Num 110.390625, Num 71.484375]"
    by (simp add: one_step)
  have s3: "step rnd 2 2 ?l 1 0 [Num 0, Num 255, Num 110.390625, Num 71.484375]
      = [Num 0, Num 255, Num 0, Num 119.7802734375]"
    by (simp add: one_step)
  have s4: "step rnd 2 2 ?l 1 1 [Num 0, Num 255, Num 0, Num 119.7802734375]
      = [Num 0, Num 255, Num 0, Num 0]"
    by (simp add: one_step)
  have d: "diffuse rnd [Num 100, Num 100, Num 100, Num 100] 2 2 ?l
      = [Num 0, Num 255, Num 0, Num 0]"
    by (simp add: diffuse_def loop_y.simps loop_x.simps
        s1 [simplified] s2 [simplified] s3 [simplified] s4 [simplified])
  have "applyErrorDiffusion rnd [Num 100, Num 100, Num 100, Num 100] 2 2 ?l = [0, 255, 0, 0]"
    by (simp add: applyErrorDiffusion_def d to_output_Num)
  with q s1 s2 s3 d show ?thesis by simp
qed

text \<open>
  Claim C5. On the buffer \<open>[100, 100, 100, 100]\<close> of width 2 and height 2 with the palette
  \<open>[0, 255]\<close> the engine returns \<open>[0, 255, 0, 0]\<close>. The first step quantizes the pixel
  \<open>(0, 0)\<close> to 0 and leaves 143.75 in the pixel \<open>(1, 0)\<close>, which is quantized to 255; the
  negative error of that step lowers the two pixels of the second row, which are both quantized
  to 0, and the working buffer ends as \<open>[0, 255, 0, 0]\<close>. This is the run in binary64, the
  arithmetic of the source, and in exact arithmetic alike.
\<close>

theorem C5_two_by_two_example:
  "applyErrorDiffusion binary64 [Num 100, Num 100, Num 100, Num 100] 2 2 [Num 0, Num 255]
       = [0, 255, 0, 0]
   \<and> step binary64 2 2 [Num 0, Num 255] 0 0 [Num 100, Num 100, Num 100, Num 100]
       = [Num 0, Num 143.75, Num 131.25, Num 106.25]
   \<and> findNearestLevel binary64 (Num 143.75) [Num 0, Num 255] = Num 255
   \<and> step binary64 2 2 [Num 0, Num 255] 0 1 [Num 0, Num 143.75, Num 131.25, Num 106.25]
       = [Num 0, Num 255, Num 110.390625, Num 71.484375]
   \<and> step binary64 2 2 [Num 0, Num 255] 1 0 [Num 0, Num 255, Num 110.390625, Num 71.484375]
       = [Num 0, Num 255, Num 0, Num 119.7802734375]
   \<and> diffuse binary64 [Num 100, Num 100, Num 100, Num 100] 2 2 [Num 0, Num 255]
       = [Num 0, Num 255, Num 0, Num 0]
   \<and> applyErrorDiffusion exact [Num 100, Num 100, Num 100, Num 100] 2 2 [Num 0, Num 255]
       = [0, 255, 0, 0]
   \<and> step exact 2 2 [Num 0, Num 255] 0 0 [Num 100, Num 100, Num 100, Num 100]
       = [Num 0, Num 143.75, Num 131.25, Num 106.25]
   \<and> findNearestLevel exact (Num 143.75) [Num 0, Num 255] = Num 255
   \<and> step exact 2 2 [Num 0, Num 255] 0 1 [Num 0, Num 143.75, Num 131.25, Num 106.25]
       = [Num 0, Num 255, Num 110.390625, Num 71.484375]
   \<and> step exact 2 2 [Num 0, Num 255] 1 0 [Num 0, Num 255, Num 110.390625, Num 71.484375]
       = [Num 0, Num 255, Num 0, Num 119.7802734375]
   \<and> diffuse exact [Num 100, Num 100, Num 100, Num 100] 2 2 [Num 0, Num 255]
       = [Num 0, Num 255, Num 0, Num 0]"
proof -
  have "\<forall>x. x * 2 ^ 20 \<in> \<int> \<and> \<bar>x\<bar> < 2 ^ 33 \<longrightarrow> binary64 x = Num x"
    by (simp add: binary64_dyadic)
  moreover have "\<forall>x. x * 2 ^ 20 \<in> \<int> \<and> \<bar>x\<bar> < 2 ^ 33 \<longrightarrow> exact x = Num x"
    by (simp add: exact_def)
  ultimately show ?thesis
    using two_by_two_run [of binary64] two_by_two_run [of exact] by blast
qed

section \<open>A buffer of one pixel\<close>

text \<open>
  Claim C8. On a buffer of width 1 and height 1 that holds the integer \<open>v\<close>, with a
  non-empty palette of integers between 0 and 255, the engine returns one element, a member of
  the palette at the least distance from \<open>v\<close>: in binary64 for every \<open>v\<close> below \<open>2 ^ 52\<close>
  in magnitude (and so for every intensity), where no difference between \<open>v\<close> and a level is
  rounded, and in exact arithmetic for every \<open>v\<close>. On \<open>[60]\<close> with the palette
  \<open>[0, 51, 102, 153, 204, 255]\<close> the engine returns \<open>[51]\<close>.
\<close>

theorem C8_one_by_one:
  assumes "palette \<noteq> []" and "\<forall>p \<in> set palette. 0 \<le> p \<and> p \<le> 255"
  shows "(\<bar>v\<bar> < 2 ^ 52 \<longrightarrow>
           (\<exists>m \<in> set palette.
              applyErrorDiffusion binary64 [num_of_int v] 1 1 (map num_of_int palette) = [m]
              \<and> (\<forall>q \<in> set palette. \<bar>v - m\<bar> \<le> \<bar>v - q\<bar>)))
         \<and> (\<exists>m \<in> set palette.
              applyErrorDiffusion exact [num_of_int v] 1 1 (map num_of_int palette) = [m]
              \<and> (\<forall>q \<in> set palette. \<bar>v - m\<bar> \<le> \<bar>v - q\<bar>))
         \<and> applyErrorDiffusion binary64 [num_of_int 60] 1 1
               (map num_of_int [0, 51, 102, 153, 204, 255]) = [51]
         \<and> applyErrorDiffusion exact [num_of_int 60] 1 1
               (map num_of_int [0, 51, 102, 153, 204, 255]) = [51]"
proof -
  have one: "\<exists>m \<in> set palette.
            applyErrorDiffusion g [num_of_int v] 1 1 (map num_of_int palette) = [m]
            \<and> (\<forall>q \<in> set palette. \<bar>v - m\<bar> \<le> \<bar>v - q\<bar>)"
    if exg: "\<forall>p \<in> set palette.
           g (real_of_int v - real_of_int p) = Num (real_of_int v - real_of_int p)" for g
  proof -
    let ?ls = "map real_of_int palette"
    have lv: "map num_of_int palette = map Num ?ls"
      by (simp add: num_of_int_def)
    from assms(1) have ne: "?ls \<noteq> []" by simp
    from exg have ex: "\<forall>l \<in> set ?ls. g (real_of_int v - l) = Num (real_of_int v - l)"
      by simp
    from findNearestLevel_nearest [OF ne ex] obtain r where
      r: "r \<in> set ?ls"
      and f: "findNearestLevel g (Num (real_of_int v)) (map Num ?ls) = Num r"
      and least: "\<forall>q \<in> set ?ls. \<bar>real_of_int v - r\<bar> \<le> \<bar>real_of_int v - q\<bar>"
      by blast
    from r obtain m where m: "m \<in> set palette" and rm: "r = real_of_int m" by auto
    have "\<bar>v - m\<bar> \<le> \<bar>v - q\<bar>" if "q \<in> set palette" for q
    proof -
      from that least rm
      have "\<bar>real_of_int v - real_of_int m\<bar> \<le> \<bar>real_of_int v - real_of_int q\<bar>"
        by simp
      then have "real_of_int \<bar>v - m\<bar> \<le> real_of_int \<bar>v - q\<bar>" by simp
      then show ?thesis by (simp only: of_int_le_iff)
    qed
    moreover have "applyErrorDiffusion g [num_of_int v] 1 1 (map num_of_int palette) = [m]"
    proof -
      have "applyErrorDiffusion g [num_of_int v] 1 1 (map num_of_int palette)
          = [to_output (num_of_int m)]"
        unfolding applyErrorDiffusion_def diffuse_one_by_one lv
        using f rm by (simp add: num_of_int_def)
      with m assms(2) show ?thesis by (simp add: to_output_level)
    qed
    ultimately show ?thesis
      using m by blast
  qed
  have in_binary64: "\<forall>p \<in> set palette.
      binary64 (real_of_int v - real_of_int p) = Num (real_of_int v - real_of_int p)"
    if v: "\<bar>v\<bar> < 2 ^ 52"
  proof
    fix p assume "p \<in> set palette"
    with assms(2) have "0 \<le> p" and "p \<le> 255" by simp_all
    with v have "\<bar>v - p\<bar> < 2 ^ 53" by simp
    then have "binary64 (real_of_int (v - p)) = Num (real_of_int (v - p))"
      by (rule binary64_of_int)
    then show "binary64 (real_of_int v - real_of_int p) = Num (real_of_int v - real_of_int p)"
      by simp
  qed
  have in_exact: "\<forall>p \<in> set palette.
      exact (real_of_int v - real_of_int p) = Num (real_of_int v - real_of_int p)"
    by (simp add: exact_def)
  have sixty: "applyErrorDiffusion binary64 [num_of_int 60] 1 1
      (map num_of_int [0, 51, 102, 153, 204, 255]) = [51]"
    by (simp add: evaluate)
  have sixty_exact: "applyErrorDiffusion exact [num_of_int 60] 1 1
      (map num_of_int [0, 51, 102, 153, 204, 255]) = [51]"
    by (simp add: evaluate)
  from one [OF in_binary64] one [OF in_exact] sixty sixty_exact show ?thesis by blast
qed

text \<open>
  The theorem at the value 200 and the palette \<open>[0, 255]\<close>: in binary64 the nearest member
  is 255.
\<close>

theorem C8_one_by_one_witness:
  "[0, 255] \<noteq> ([]::int list) \<and> list_all (\<lambda>p. 0 \<le> p \<and> p \<le> 255) [0, 255::int]
   \<and> \<bar>200::int\<bar> < 2 ^ 52
   \<and> applyErrorDiffusion binary64 [num_of_int 200] 1 1 (map num_of_int [0, 255]) = [255]
   \<and> applyErrorDiffusion binary64 [num_of_int 60] 1 1
         (map num_of_int [0, 51, 102, 153, 204, 255]) = [51]"
proof -
  from C8_one_by_one [where palette = "[0, 255]" and v = 200]
  obtain m :: int where m: "m \<in> set [0, 255]"
    and f: "applyErrorDiffusion binary64 [num_of_int 200] 1 1 (map num_of_int [0, 255]) = [m]"
    and least: "\<forall>q \<in> set [0, 255]. \<bar>200 - m\<bar> \<le> \<bar>200 - q\<bar>"
    and sixty: "applyErrorDiffusion binary64 [num_of_int 60] 1 1
        (map num_of_int [0, 51, 102, 153, 204, 255]) = [51]"
    by auto
  from m least have "m = 255" by auto
  with f sixty show ?thesis by simp
qed

section \<open>The nearest level, and ties\<close>




section \<open>Conservation of the error at an interior pixel\<close>

text \<open>
  Claim C7 says that the four fractions of the error that a step at an interior pixel deposits
  add up to exactly the error. The fractions are products computed in binary64. On the buffer
  \<open>[0, 1 + 1 / 2 ^ 52, 0, 0, 0, 0]\<close> of width 3 and height 2 with the palette \<open>[0]\<close>, the
  step at the pixel \<open>(1, 0)\<close> computes the error \<open>1 + 1 / 2 ^ 52\<close>; three of its four
  products are rounded, the step deposits them in the four neighbours, and they add up to the
  error plus \<open>1 / 2 ^ 56\<close>.
\<close>

theorem C7_rounded_fractions_counterexample:
  "js_sub binary64 (Num (1 + 1 / 2 ^ 52)) (Num 0) = Num (1 + 1 / 2 ^ 52)
   \<and> js_mul binary64 (Num (1 + 1 / 2 ^ 52)) (Num (7 / 16)) = Num ((7 * 2 ^ 52 + 8) / 2 ^ 56)
   \<and> js_mul binary64 (Num (1 + 1 / 2 ^ 52)) (Num (3 / 16)) = Num ((3 * 2 ^ 52 + 4) / 2 ^ 56)
   \<and> js_mul binary64 (Num (1 + 1 / 2 ^ 52)) (Num (5 / 16)) = Num ((5 * 2 ^ 52 + 4) / 2 ^ 56)
   \<and> js_mul binary64 (Num (1 + 1 / 2 ^ 52)) (Num (1 / 16)) = Num ((2 ^ 52 + 1) / 2 ^ 56)
   \<and> step binary64 3 2 [Num 0] 0 1 [Num 0, Num (1 + 1 / 2 ^ 52), Num 0, Num 0, Num 0, Num 0]
       = [Num 0, Num 0, Num ((7 * 2 ^ 52 + 8) / 2 ^ 56), Num ((3 * 2 ^ 52 + 4) / 2 ^ 56),
          Num ((5 * 2 ^ 52 + 4) / 2 ^ 56), Num ((2 ^ 52 + 1) / 2 ^ 56)]
   \<and> (7 * 2 ^ 52 + 8) / 2 ^ 56 + (3 * 2 ^ 52 + 4) / 2 ^ 56 + (5 * 2 ^ 52 + 4) / 2 ^ 56
         + (2 ^ 52 + 1) / 2 ^ 56 = 1 + 1 / 2 ^ 52 + 1 / (2 ^ 56 :: real)
   \<and> (7 * 2 ^ 52 + 8) / 2 ^ 56 + (3 * 2 ^ 52 + 4) / 2 ^ 56 + (5 * 2 ^ 52 + 4) / 2 ^ 56
         + (2 ^ 52 + 1) / 2 ^ 56 \<noteq> 1 + 1 / (2 ^ 52 :: real)"
proof -
  have e: "binary64 (1 + 1 / 2 ^ 52) = Num (1 + 1 / 2 ^ 52)"
    by (rule binary64_representable [of _ "2 ^ 52 + 1" "- 52"]) (simp_all add: power_int_minus)
  have p7: "binary64 ((1 + 1 / 2 ^ 52) * (7 / 16)) = Num ((7 * 2 ^ 52 + 8) / 2 ^ 56)"
    by (subst binary64_rounds [of "- 54"]) (simp_all add: rne_def power_int_minus)
  have p3: "binary64 ((1 + 1 / 2 ^ 52) * (3 / 16)) = Num ((3 * 2 ^ 52 + 4) / 2 ^ 56)"
    by (subst binary64_rounds [of "- 55"]) (simp_all add: rne_def power_int_minus)
  have p5: "binary64 ((1 + 1 / 2 ^ 52) * (5 / 16)) = Num ((5 * 2 ^ 52 + 4) / 2 ^ 56)"
    by (subst binary64_rounds [of "- 54"]) (simp_all add: rne_def power_int_minus)
  have p1: "binary64 ((1 + 1 / 2 ^ 52) * (1 / 16)) = Num ((2 ^ 52 + 1) / 2 ^ 56)"
    by (subst binary64_representable [of _ "2 ^ 52 + 1" "- 56"])
      (simp_all add: power_int_minus)
  have d7: "binary64 ((7 * 2 ^ 52 + 8) / 2 ^ 56) = Num ((7 * 2 ^ 52 + 8) / 2 ^ 56)"
    by (rule binary64_representable [of _ "7 * 2 ^ 50 + 2" "- 54"])
      (simp_all add: power_int_minus)
  have d3: "binary64 ((3 * 2 ^ 52 + 4) / 2 ^ 56) = Num ((3 * 2 ^ 52 + 4) / 2 ^ 56)"
    by (rule binary64_representable [of _ "3 * 2 ^ 50 + 1" "- 54"])
      (simp_all add: power_int_minus)
  have d5: "binary64 ((5 * 2 ^ 52 + 4) / 2 ^ 56) = Num ((5 * 2 ^ 52 + 4) / 2 ^ 56)"
    by (rule binary64_representable [of _ "5 * 2 ^ 50 + 1" "- 54"])
      (simp_all add: power_int_minus)
  have d1: "binary64 ((2 ^ 52 + 1) / 2 ^ 56) = Num ((2 ^ 52 + 1) / 2 ^ 56)"
    by (rule binary64_representable [of _ "2 ^ 52 + 1" "- 56"])
      (simp_all add: power_int_minus)
  have s: "step binary64 3 2 [Num 0] 0 1
      [Num 0, Num (1 + 1 / 2 ^ 52), Num 0, Num 0, Num 0, Num 0]
       = [Num 0, Num 0, Num ((7 * 2 ^ 52 + 8) / 2 ^ 56), Num ((3 * 2 ^ 52 + 4) / 2 ^ 56),
          Num ((5 * 2 ^ 52 + 4) / 2 ^ 56), Num ((2 ^ 52 + 1) / 2 ^ 56)]"
    using e p7 p3 p5 p1 d7 d3 d5 d1
    by (simp add: step_def findNearestLevel_single rd_def wr_def add_at_def Let_def)
  from e p7 p3 p5 p1 s show ?thesis by simp
qed

text \<open>
  Claim C7, as the code has it. At a pixel that is neither in the first column, nor in the last
  column, nor in the last row, where the pixel holds the number \<open>old\<close>, the quantizer
  returns the number \<open>new\<close>, and the error and its four products \<open>d1\<close> to \<open>d4\<close> with
  7/16, 3/16, 5/16 and 1/16 are computed as finite numbers, one step writes \<open>new\<close> to the
  pixel, adds \<open>d1\<close>, \<open>d2\<close>, \<open>d3\<close> and \<open>d4\<close> to the right, bottom-left, bottom and
  bottom-right neighbours (four different cells), and changes no other cell, whatever the
  rounding is. When none of the four products is rounded, the four amounts add up to the error
  exactly.
\<close>

theorem C7_weight_conservation:
  assumes "1 \<le> x" and "x + 1 < width" and "0 \<le> y" and "y + 1 < height"
    and "index = y * width + x"
    and "rd result index = Num old"
    and "findNearestLevel rnd (Num old) levels = Num new"
    and "js_sub rnd (Num old) (Num new) = Num error"
    and "js_mul rnd (Num error) (Num (7 / 16)) = Num d1"
    and "js_mul rnd (Num error) (Num (3 / 16)) = Num d2"
    and "js_mul rnd (Num error) (Num (5 / 16)) = Num d3"
    and "js_mul rnd (Num error) (Num (1 / 16)) = Num d4"
    and "result' = step rnd width height levels y x result"
  shows "rd result' index = Num new
      \<and> rd result' (index + 1) = js_add rnd (rd result (index + 1)) (Num d1)
      \<and> rd result' (index + width - 1) = js_add rnd (rd result (index + width - 1)) (Num d2)
      \<and> rd result' (index + width) = js_add rnd (rd result (index + width)) (Num d3)
      \<and> rd result' (index + width + 1) = js_add rnd (rd result (index + width + 1)) (Num d4)
      \<and> (\<forall>k. k \<notin> {index, index + 1, index + width - 1, index + width, index + width + 1}
            \<longrightarrow> rd result' k = rd result k)
      \<and> (d1 = error * (7 / 16) \<and> d2 = error * (3 / 16)
            \<and> d3 = error * (5 / 16) \<and> d4 = error * (1 / 16)
          \<longrightarrow> d1 + d2 + d3 + d4 = error)"
proof -
  have e1: "y * width + (x + 1) = index + 1"
    and e2: "(y + 1) * width + (x - 1) = index + width - 1"
    and e3: "(y + 1) * width + x = index + width"
    and e4: "(y + 1) * width + (x + 1) = index + width + 1"
    using assms(5) by (simp_all add: distrib_right)
  have w: "3 \<le> width" using assms(1,2) by simp
  note r = rd_Num [OF assms(6)]
  have s: "result' =
      add_at rnd (add_at rnd (add_at rnd (add_at rnd (wr result index (Num new))
        (index + 1) (Num d1))
        (index + width - 1) (Num d2))
        (index + width) (Num d3))
        (index + width + 1) (Num d4)"
    unfolding assms(13) step_def Let_def e1 e2 e3 e4 assms(5) [symmetric] assms(6) assms(7)
      assms(8) assms(9) assms(10) assms(11) assms(12)
    using assms(1-4) by simp
  have c0: "rd result' index = Num new"
    unfolding s using w r by (simp add: rd_add_at rd_wr)
  have c1: "rd result' (index + 1) = js_add rnd (rd result (index + 1)) (Num d1)"
    unfolding s using w by (simp add: rd_add_at_same rd_add_at_other rd_wr_other)
  have c2: "rd result' (index + width - 1) = js_add rnd (rd result (index + width - 1)) (Num d2)"
    unfolding s using w by (simp add: rd_add_at_same rd_add_at_other rd_wr_other)
  have c3: "rd result' (index + width) = js_add rnd (rd result (index + width)) (Num d3)"
    unfolding s using w by (simp add: rd_add_at_same rd_add_at_other rd_wr_other)
  have c4: "rd result' (index + width + 1) = js_add rnd (rd result (index + width + 1)) (Num d4)"
    unfolding s using w by (simp add: rd_add_at_same rd_add_at_other rd_wr_other)
  have rest: "rd result' k = rd result k"
    if "k \<notin> {index, index + 1, index + width - 1, index + width, index + width + 1}" for k
    unfolding s using that by (simp add: rd_add_at rd_wr)
  have total: "d1 + d2 + d3 + d4 = error"
    if "d1 = error * (7 / 16) \<and> d2 = error * (3 / 16)
      \<and> d3 = error * (5 / 16) \<and> d4 = error * (1 / 16)"
    using that by (simp add: field_simps)
  from c0 c1 c2 c3 c4 rest total show ?thesis by blast
qed

text \<open>
  The theorem in binary64 at the pixel \<open>(1, 0)\<close> of a 3 by 2 buffer of cells 100 with the
  palette \<open>[0, 255]\<close>: the error 100 is deposited as 43.75, 18.75, 31.25 and 6.25.
\<close>

theorem C7_weight_conservation_witness:
  "(1::int) \<le> 1 \<and> (1::int) + 1 < 3 \<and> (0::int) \<le> 0 \<and> (0::int) + 1 < 2
   \<and> (1::int) = 0 * 3 + 1
   \<and> rd [Num 100, Num 100, Num 100, Num 100, Num 100, Num 100] 1 = Num 100
   \<and> findNearestLevel binary64 (Num 100) [Num 0, Num 255] = Num 0
   \<and> js_sub binary64 (Num 100) (Num 0) = Num 100
   \<and> js_mul binary64 (Num 100) (Num (7 / 16)) = Num 43.75
   \<and> js_mul binary64 (Num 100) (Num (3 / 16)) = Num 18.75
   \<and> js_mul binary64 (Num 100) (Num (5 / 16)) = Num 31.25
   \<and> js_mul binary64 (Num 100) (Num (1 / 16)) = Num 6.25
   \<and> (43.75::real) = 100 * (7 / 16) \<and> (18.75::real) = 100 * (3 / 16)
   \<and> (31.25::real) = 100 * (5 / 16) \<and> (6.25::real) = 100 * (1 / 16)
   \<and> rd (step binary64 3 2 [Num 0, Num 255] 0 1
         [Num 100, Num 100, Num 100, Num 100, Num 100, Num 100]) 1 = Num 0
   \<and> rd (step binary64 3 2 [Num 0, Num 255] 0 1
         [Num 100, Num 100, Num 100, Num 100, Num 100, Num 100]) 2 = Num 143.75
   \<and> rd (step binary64 3 2 [Num 0, Num 255] 0 1
         [Num 100, Num 100, Num 100, Num 100, Num 100, Num 100]) 3 = Num 118.75
   \<and> rd (step binary64 3 2 [Num 0, Num 255] 0 1
         [Num 100, Num 100, Num 100, Num 100, Num 100, Num 100]) 4 = Num 131.25
   \<and> rd (step binary64 3 2 [Num 0, Num 255] 0 1
         [Num 100, Num 100, Num 100, Num 100, Num 100, Num 100]) 5 = Num 106.25
   \<and> rd (step binary64 3 2 [Num 0, Num 255] 0 1
         [Num 100, Num 100, Num 100, Num 100, Num 100, Num 100]) 0 = Num 100
   \<and> (43.75::real) + 18.75 + 31.25 + 6.25 = 100"
proof -
  let ?r = "[Num 100, Num 100, Num 100, Num 100, Num 100, Num 100]"
  let ?l = "[Num 0, Num 255]"
  have f: "findNearestLevel binary64 (Num 100) ?l = Num 0"
    by (simp add: findNearestLevel_def binary64_dyadic)
  have r: "rd ?r 1 = Num 100" "rd ?r (1 + 1) = Num 100" "rd ?r (1 + 3 - 1) = Num 100"
    "rd ?r (1 + 3) = Num 100" "rd ?r (1 + 3 + 1) = Num 100" "rd ?r 0 = Num 100"
    by (simp_all add: rd_def)
  have e: "js_sub binary64 (Num 100) (Num 0) = Num 100"
    by (simp add: binary64_dyadic)
  have p: "js_mul binary64 (Num 100) (Num (7 / 16)) = Num 43.75"
    "js_mul binary64 (Num 100) (Num (3 / 16)) = Num 18.75"
    "js_mul binary64 (Num 100) (Num (5 / 16)) = Num 31.25"
    "js_mul binary64 (Num 100) (Num (1 / 16)) = Num 6.25"
    by (simp_all add: binary64_dyadic)
  have a: "binary64 (100 + 43.75) = Num 143.75" "binary64 (100 + 18.75) = Num 118.75"
    "binary64 (100 + 31.25) = Num 131.25" "binary64 (100 + 6.25) = Num 106.25"
    by (simp_all add: binary64_dyadic)
  have g: "(1::int) \<le> 1" "(1::int) + 1 < 3" "(0::int) \<le> 0" "(0::int) + 1 < 2"
    "(1::int) = 0 * 3 + 1"
    by simp_all
  have x: "(43.75::real) = 100 * (7 / 16)" "(18.75::real) = 100 * (3 / 16)"
    "(31.25::real) = 100 * (5 / 16)" "(6.25::real) = 100 * (1 / 16)"
    by simp_all
  note t = C7_weight_conservation [where rnd = binary64 and result' = "step binary64 3 2 ?l 0 1 ?r",
      OF g r(1) f e p refl]
  from t have "rd (step binary64 3 2 ?l 0 1 ?r) 0 = rd ?r 0" by simp
  with t f r e p a x show ?thesis by simp
qed

end
